theory Spec2Isabelle
  imports Main "HOL-Library.Multiset" "HOL-Library.List_Lexorder" "HOL-Library.Char_ord"
begin

section \<open>Strings\<close>

text \<open>
  The program's strings are JavaScript strings. They are modelled as \<^typ>\<open>string\<close>, one
  \<^typ>\<open>char\<close> per code unit, for code units in the ASCII range (plate numbers, e-mail
  addresses and pass codes are typed on ASCII keyboards and key pads). The library
  functions the program calls are written out for that range: \<open>toUpperCase\<close> and
  \<open>toLowerCase\<close> change the 26 letters and nothing else, \<open>trim\<close> removes white space at
  both ends, \<open>split\<close> cuts at every separator and keeps empty pieces.
\<close>

definition upper_table :: "(char \<times> char) list" where
  "upper_table = zip ''abcdefghijklmnopqrstuvwxyz'' ''ABCDEFGHIJKLMNOPQRSTUVWXYZ''"

definition lower_table :: "(char \<times> char) list" where
  "lower_table = zip ''ABCDEFGHIJKLMNOPQRSTUVWXYZ'' ''abcdefghijklmnopqrstuvwxyz''"

definition toUpperCase :: "string \<Rightarrow> string" where
  "toUpperCase s = map (\<lambda>c. case map_of upper_table c of Some d \<Rightarrow> d | None \<Rightarrow> c) s"

definition toLowerCase :: "string \<Rightarrow> string" where
  "toLowerCase s = map (\<lambda>c. case map_of lower_table c of Some d \<Rightarrow> d | None \<Rightarrow> c) s"

definition isWhiteSpace :: "char \<Rightarrow> bool" where
  "isWhiteSpace c =
     (c \<in> set [CHR 0x09, CHR 0x0A, CHR 0x0B, CHR 0x0C, CHR 0x0D, CHR '' '', CHR 0xA0])"

definition trim :: "string \<Rightarrow> string" where
  "trim s = rev (dropWhile isWhiteSpace (rev (dropWhile isWhiteSpace s)))"

fun split :: "char \<Rightarrow> string \<Rightarrow> string list" where
  "split sep [] = [[]]"
| "split sep (c # cs) =
     (if c = sep then [] # split sep cs
      else (case split sep cs of [] \<Rightarrow> [[c]] | w # ws \<Rightarrow> (c # w) # ws))"

text \<open>The regular expression \<^verbatim>\<open>/^\d{4}$/\<close>: exactly four characters, each a digit 0 to 9.\<close>

definition isDigit :: "char \<Rightarrow> bool" where
  "isDigit c = (c \<in> set ''0123456789'')"

definition four_digits :: "string \<Rightarrow> bool" where
  "four_digits s = (length s = 4 \<and> list_all isDigit s)"


section \<open>Accounts\<close>

text \<open>
  A row of the table \<open>app_users\<close>, as the type \<open>AppUser\<close> declares it. The column \<open>id\<close> is
  named \<open>uid\<close> here. The table's schema makes \<open>id\<close> the primary key and \<open>email\<close> unique.
\<close>

datatype role = Admin | User

record app_user =
  uid :: string
  email :: string
  full_name :: string
  role :: role
  assigned_vehicles :: "string list"
  created_at :: string
  created_by :: "string option"


section \<open>Submitting a fuel record (FuelForm, handleSubmit)\<close>

text \<open>
  \<open>handleSubmit\<close> begins with the only check that decides whether the signed-in account
  may file a record for the plate typed into the form:
  \<^verbatim>\<open>
  if (appUser && appUser.assigned_vehicles.length > 0) {
    const plateUpper = formData.plateNumber.toUpperCase();
    if (!appUser.assigned_vehicles.includes(plateUpper)) { ...error...; return; }
  }
  \<close>
  \<open>canWriteRecord\<close> is that check (\<open>True\<close> when the handler goes on to the insertion).
  The account's role is not read.
\<close>

definition canWriteRecord :: "app_user option \<Rightarrow> string \<Rightarrow> bool" where
  "canWriteRecord appUser plateNumber =
     (case appUser of
        None \<Rightarrow> True
      | Some u \<Rightarrow>
          (if length (assigned_vehicles u) > 0
           then (let plateUpper = toUpperCase plateNumber
                 in plateUpper \<in> set (assigned_vehicles u))
           else True))"

text \<open>
  The handler itself: the refusal names the upper-cased plate; otherwise the row is sent
  to the record store under the upper-cased plate, and the store's answer (an error
  message or none) decides between the two remaining messages.
\<close>

datatype submit_outcome =
    NotAuthorized string
  | SubmitFailed string
  | Submitted string

definition handleSubmit :: "app_user option \<Rightarrow> string \<Rightarrow> string option \<Rightarrow> submit_outcome" where
  "handleSubmit appUser plateNumber insert_error =
     (if \<not> canWriteRecord appUser plateNumber then NotAuthorized (toUpperCase plateNumber)
      else (case insert_error of
              Some msg \<Rightarrow> SubmitFailed msg
            | None \<Rightarrow> Submitted (toUpperCase plateNumber)))"

text \<open>Two accounts used as concrete inputs below.\<close>

definition driver :: app_user where
  "driver = \<lparr>uid = ''u-1'', email = ''driver@fleet.example'', full_name = ''Driver'',
             role = User, assigned_vehicles = [''ABC-1''], created_at = ''2025-08-11'',
             created_by = None\<rparr>"

definition scoped_admin :: app_user where
  "scoped_admin = \<lparr>uid = ''a-1'', email = ''admin@admin.com'',
             full_name = ''System Administrator'', role = Admin,
             assigned_vehicles = [''ABC-1''], created_at = ''2025-08-11'',
             created_by = None\<rparr>"



section \<open>The two stores\<close>

text \<open>
  The credential store is the platform's table of authentication users; the account
  directory is the table \<open>app_users\<close>, kept in insertion order. Both are lists of rows.
  The database may carry the trigger \<open>on_auth_user_created\<close> (one of the migrations
  installs it); the flag of that name says whether it does, and every statement below
  holds with and without it. Every function below that calls the credential store also
  returns the list of the calls it made, in order.
\<close>

record auth_user =
  auth_id :: string
  auth_email :: string
  auth_password :: string

record backend =
  auth_users :: "auth_user list"
  app_users :: "app_user list"
  on_auth_user_created :: bool

datatype auth_call =
    CreateUser string string
  | DeleteUser string
  | SignInWithPassword string string
  | SignOut

text \<open>
  The trigger function \<open>handle_new_user\<close>, run after a row \<open>NEW\<close> is inserted into the
  credential store: unless the directory already has a row with the e-mail, it inserts a
  row with the new identity, the e-mail also as full name (no metadata is passed), role
  user and no vehicles. The insertion raises an exception (\<open>None\<close>) when the identity is
  already a primary key of the directory.
\<close>

definition handle_new_user :: "string \<Rightarrow> auth_user \<Rightarrow> app_user list \<Rightarrow> app_user list option" where
  "handle_new_user stamp NEW tbl =
     (if \<not> list_ex (\<lambda>r. email r = auth_email NEW) tbl
      then (if list_ex (\<lambda>r. uid r = auth_id NEW) tbl then None
            else Some (tbl @ [\<lparr>uid = auth_id NEW, email = auth_email NEW,
                               full_name = auth_email NEW, role = User,
                               assigned_vehicles = [], created_at = stamp,
                               created_by = None\<rparr>]))
      else Some tbl)"

text \<open>
  \<open>auth.admin.createUser\<close> answers with an error message or with the identity it generated;
  which of the two is the store's business, so it is an input here. On success the store
  holds the new credential and the trigger, if installed, has run; an exception in the
  trigger undoes the insertion and the call answers with an error.
  \<open>auth.admin.deleteUser\<close> answers with an error (and changes nothing) or removes the
  credentials of the given identity; no row of the directory refers to the credential
  store, so the directory stays as it is.
\<close>

definition auth_admin_createUser ::
  "string + string \<Rightarrow> string \<Rightarrow> string \<Rightarrow> string \<Rightarrow> backend \<Rightarrow> (string + string) \<times> backend"
  where
  "auth_admin_createUser outcome stamp e p st =
     (case outcome of
        Inl msg \<Rightarrow> (Inl msg, st)
      | Inr i \<Rightarrow>
          (let NEW = \<lparr>auth_id = i, auth_email = e, auth_password = p\<rparr>
           in if on_auth_user_created st
              then (case handle_new_user stamp NEW (app_users st) of
                      None \<Rightarrow> (Inl ''Database error saving new user'', st)
                    | Some tbl \<Rightarrow>
                        (Inr i, st\<lparr>auth_users := auth_users st @ [NEW], app_users := tbl\<rparr>))
              else (Inr i, st\<lparr>auth_users := auth_users st @ [NEW]\<rparr>)))"

definition auth_admin_deleteUser ::
  "string option \<Rightarrow> string \<Rightarrow> auth_user list \<Rightarrow> string option \<times> auth_user list" where
  "auth_admin_deleteUser fault i us =
     (case fault of
        Some msg \<Rightarrow> (Some msg, us)
      | None \<Rightarrow> (None, filter (\<lambda>a. auth_id a \<noteq> i) us))"

text \<open>
  Signing in with a password: the outcome is success, an error result, or a thrown
  exception. The concrete store accepts exactly the stored pairs of e-mail and password.
\<close>

datatype auth_outcome = AuthOk | AuthError | AuthThrows

definition signInWithPassword :: "auth_user list \<Rightarrow> string \<Rightarrow> string \<Rightarrow> auth_outcome" where
  "signInWithPassword us e p =
     (if list_ex (\<lambda>a. auth_email a = e \<and> auth_password a = p) us then AuthOk else AuthError)"

text \<open>A query closed by \<open>.single()\<close> yields a row only when exactly one row matches.\<close>

definition single :: "'a list \<Rightarrow> 'a option" where
  "single rows = (case rows of [r] \<Rightarrow> Some r | _ \<Rightarrow> None)"

text \<open>
  The lookup that precedes the creation of an account,
  \<^verbatim>\<open>const { data: existingUser } = await ...from('app_users').select('id').eq('email', e).single()\<close>.
  Only \<open>data\<close> is read: when the read fails (the first argument) the query's error is
  discarded and \<open>existingUser\<close> is null, as it is when no row or more than one row matches.
\<close>

definition existingUser :: "string option \<Rightarrow> string \<Rightarrow> app_user list \<Rightarrow> app_user option" where
  "existingUser lookupError e tbl =
     (case lookupError of
        Some msg \<Rightarrow> None
      | None \<Rightarrow> single (filter (\<lambda>r. email r = e) tbl))"

text \<open>
  \<open>upsert(row, onConflict: 'id')\<close> on \<open>app_users\<close>. The call fails when the environment makes
  it fail (the first argument) or when another row already has the e-mail (the column is
  unique). Otherwise a row with the same \<open>id\<close> is overwritten, keeping its \<open>created_at\<close>,
  and a row with a new \<open>id\<close> is appended.
\<close>

definition upsert :: "string option \<Rightarrow> app_user \<Rightarrow> app_user list \<Rightarrow> string + app_user list" where
  "upsert fault row tbl =
     (case fault of
        Some msg \<Rightarrow> Inl msg
      | None \<Rightarrow>
          if list_ex (\<lambda>r. uid r \<noteq> uid row \<and> email r = email row) tbl
          then Inl ''duplicate key value violates unique constraint''
          else if list_ex (\<lambda>r. uid r = uid row) tbl
          then Inr (map (\<lambda>r. if uid r = uid row then row\<lparr>created_at := created_at r\<rparr> else r) tbl)
          else Inr (tbl @ [row]))"


section \<open>Creating an account (edge function admin-users, action create-user)\<close>

text \<open>
  The model starts after the function has established that the caller is an
  administrator; \<open>caller\<close> is the caller's identity, stored as \<open>created_by\<close>. The request body
  carries four strings, as the administration form sends them. The row is written with
  an upsert on \<open>id\<close>: with the trigger installed the directory already has a row for the new
  identity when the function writes its own.
\<close>

definition vehiclesArray :: "string \<Rightarrow> string list" where
  "vehiclesArray assignedVehicles =
     filter (\<lambda>v. length v > 0)
       (map (\<lambda>v. toUpperCase (trim v)) (split CHR '','' assignedVehicles))"

record create_user_body =
  body_email :: string
  body_password :: string
  body_fullName :: string
  body_assignedVehicles :: string

text \<open>What the environment decides during one call: whether the lookup's read fails, the
  answers of the three store mutations, and the time stamp that the directory gives a new
  row.\<close>

record create_env =
  lookup_error :: "string option"
  createUser_result :: "string + string"
  upsert_error :: "string option"
  deleteUser_error :: "string option"
  now :: string

text \<open>
  The responses, in the order of the source: 400 \<open>Password must be exactly 4 digits\<close>;
  400 \<open>User with this email already exists\<close>; 400 with the credential store's message;
  400 with the directory's message; 200 with the success message.
\<close>

datatype create_response =
    PasswordFormat
  | UserExists
  | AuthFailed string
  | InsertFailed string
  | Created string

definition create_user ::
  "create_env \<Rightarrow> string \<Rightarrow> create_user_body \<Rightarrow> backend \<Rightarrow>
     create_response \<times> backend \<times> auth_call list" where
  "create_user env caller body st =
     (if \<not> four_digits (body_password body) then (PasswordFormat, st, [])
      else
        (case existingUser (lookup_error env) (toLowerCase (body_email body)) (app_users st) of
           Some found \<Rightarrow> (UserExists, st, [])
         | None \<Rightarrow>
             (case auth_admin_createUser (createUser_result env) (now env)
                     (toLowerCase (body_email body)) (body_password body) st of
                (Inl msg, st1) \<Rightarrow>
                  (AuthFailed msg, st1,
                   [CreateUser (toLowerCase (body_email body)) (body_password body)])
              | (Inr new_id, st1) \<Rightarrow>
                  (let row = \<lparr>uid = new_id, email = toLowerCase (body_email body),
                              full_name = body_fullName body, role = User,
                              assigned_vehicles = vehiclesArray (body_assignedVehicles body),
                              created_at = now env, created_by = Some caller\<rparr>
                   in case upsert (upsert_error env) row (app_users st1) of
                        Inl msg \<Rightarrow>
                          (InsertFailed msg,
                           st1\<lparr>auth_users :=
                                  snd (auth_admin_deleteUser (deleteUser_error env) new_id
                                         (auth_users st1))\<rparr>,
                           [CreateUser (toLowerCase (body_email body)) (body_password body),
                            DeleteUser new_id])
                      | Inr tbl \<Rightarrow>
                          (Created (''User created successfully! Login: '' @ body_email body @
                                    '' / Password: '' @ body_password body),
                           st1\<lparr>app_users := tbl\<rparr>,
                           [CreateUser (toLowerCase (body_email body)) (body_password body)])))))"

text \<open>Concrete stores, environments and requests used as inputs below.\<close>

definition empty_backend :: backend where
  "empty_backend = \<lparr>auth_users = [], app_users = [], on_auth_user_created = True\<rparr>"

definition admin_backend :: backend where
  "admin_backend = \<lparr>auth_users = [], app_users = [scoped_admin], on_auth_user_created = True\<rparr>"

definition ok_env :: create_env where
  "ok_env = \<lparr>lookup_error = None, createUser_result = Inr ''id-7'', upsert_error = None,
     deleteUser_error = None, now = ''2025-08-12''\<rparr>"

definition fail_env :: create_env where
  "fail_env = \<lparr>lookup_error = None, createUser_result = Inr ''id-7'',
     upsert_error = Some ''insert failed'', deleteUser_error = Some ''delete failed'',
     now = ''2025-08-12''\<rparr>"

definition twice_body :: create_user_body where
  "twice_body = \<lparr>body_email = ''New.Driver@Fleet.example'', body_password = ''1234'',
     body_fullName = ''New Driver'', body_assignedVehicles = ''abc-1, ABC-1''\<rparr>"

definition new_credential :: auth_user where
  "new_credential = \<lparr>auth_id = ''id-7'', auth_email = ''new.driver@fleet.example'',
     auth_password = ''1234''\<rparr>"

definition after_first :: backend where
  "after_first =
     \<lparr>auth_users = [new_credential],
      app_users = [\<lparr>uid = ''id-7'', email = ''new.driver@fleet.example'',
                     full_name = ''New Driver'', role = User,
                     assigned_vehicles = [''ABC-1'', ''ABC-1''],
                     created_at = ''2025-08-12'', created_by = Some ''a-1''\<rparr>],
      on_auth_user_created = True\<rparr>"

text \<open>Putting the pieces of a split string together again, for the statement that
  \<open>split\<close> loses nothing.\<close>

fun join :: "char \<Rightarrow> string list \<Rightarrow> string" where
  "join sep [] = []"
| "join sep [w] = w"
| "join sep (w # ws) = w @ sep # join sep ws"


section \<open>Signing in with plate and pass code (LoginForm, handleSignIn)\<close>

text \<open>
  The form reads the rows of role user from the directory (the read fails or yields the
  rows in directory order), takes the \<^emph>\<open>first\<close> row whose assigned vehicles include the
  trimmed, upper-cased plate (\<open>users.find\<close>), and signs in with that row's e-mail and the
  entered code. The outcomes are the messages of the source:
  \<^item> \<open>PlateMissing\<close>: \<open>Please enter your vehicle plate number.\<close>
  \<^item> \<open>CodeIncomplete\<close>: \<open>Please enter a 4-digit passcode.\<close>
  \<^item> \<open>FetchFailed m\<close>: \<open>Database error: m. Please contact administrator.\<close>
  \<^item> \<open>NoUserAccounts\<close>: \<open>No user accounts found. Please contact administrator.\<close>
  \<^item> \<open>VehicleNotAssigned p\<close>: \<open>Vehicle p is not assigned to any user. Please contact administrator.\<close>
  \<^item> \<open>InvalidPasscode\<close>: \<open>Invalid passcode. Please try again.\<close>
  \<^item> \<open>UnexpectedError\<close>: \<open>An unexpected error occurred\<close>
  \<^item> \<open>Welcome u p\<close>: \<open>Welcome, (full name of u)! Vehicle: p\<close>
  The form's own display state (the entered code is cleared after a failed attempt) is
  not part of the model.
\<close>

datatype login_outcome =
    PlateMissing
  | CodeIncomplete
  | FetchFailed string
  | NoUserAccounts
  | VehicleNotAssigned string
  | InvalidPasscode
  | UnexpectedError
  | Welcome app_user string

definition select_role_user :: "string option \<Rightarrow> app_user list \<Rightarrow> string + app_user list" where
  "select_role_user fetchError directory =
     (case fetchError of
        Some msg \<Rightarrow> Inl msg
      | None \<Rightarrow> Inr (filter (\<lambda>u. role u = User) directory))"

definition handleSignIn ::
  "string option \<Rightarrow> app_user list \<Rightarrow> (string \<Rightarrow> string \<Rightarrow> auth_outcome) \<Rightarrow> string \<Rightarrow> string \<Rightarrow>
     login_outcome \<times> auth_call list" where
  "handleSignIn fetchError directory signIn plateNumber enteredCode =
     (if trim plateNumber = [] then (PlateMissing, [])
      else if length enteredCode \<noteq> 4 then (CodeIncomplete, [])
      else
        (let plateUpper = toUpperCase (trim plateNumber)
         in case select_role_user fetchError directory of
              Inl msg \<Rightarrow> (FetchFailed msg, [])
            | Inr users \<Rightarrow>
                if length users = 0 then (NoUserAccounts, [])
                else
                  (case find (\<lambda>user. plateUpper \<in> set (assigned_vehicles user)) users of
                     None \<Rightarrow> (VehicleNotAssigned plateUpper, [])
                   | Some matchedUser \<Rightarrow>
                       (case signIn (email matchedUser) enteredCode of
                          AuthOk \<Rightarrow>
                            (Welcome matchedUser plateUpper,
                             [SignInWithPassword (email matchedUser) enteredCode])
                        | AuthError \<Rightarrow>
                            (InvalidPasscode,
                             [SignInWithPassword (email matchedUser) enteredCode])
                        | AuthThrows \<Rightarrow>
                            (UnexpectedError,
                             [SignInWithPassword (email matchedUser) enteredCode])))))"

text \<open>
  The candidate set of a login attempt: the rows of role user whose assigned vehicles
  contain the normalised plate, in directory order.
\<close>

definition candidates :: "app_user list \<Rightarrow> string \<Rightarrow> app_user list" where
  "candidates directory plateNumber =
     filter (\<lambda>u. role u = User \<and> toUpperCase (trim plateNumber) \<in> set (assigned_vehicles u))
       directory"

text \<open>Two drivers assigned to the same vehicle, with different pass codes.\<close>

definition second_driver :: app_user where
  "second_driver = \<lparr>uid = ''u-2'', email = ''second@fleet.example'', full_name = ''Second'',
             role = User, assigned_vehicles = [''ABC-1''], created_at = ''2025-08-12'',
             created_by = None\<rparr>"

definition shared_directory :: "app_user list" where
  "shared_directory = [driver, second_driver]"

definition shared_credentials :: "auth_user list" where
  "shared_credentials =
     [\<lparr>auth_id = ''u-1'', auth_email = ''driver@fleet.example'', auth_password = ''1111''\<rparr>,
      \<lparr>auth_id = ''u-2'', auth_email = ''second@fleet.example'', auth_password = ''2222''\<rparr>]"


section \<open>Signing in on the server (edge function auth-with-passcode)\<close>

text \<open>
  The request: the HTTP method and the two fields read from the JSON body (\<open>None\<close> when
  the body cannot be read). A field is a string or some other value; every other value
  fails the test \<open>typeof x !== 'string'\<close>.
\<close>

datatype jsval = JString string | JOther

text \<open>
  The responses, with their status: \<open>CorsOk\<close> 200 (method OPTIONS), \<open>MethodNotAllowed\<close> 405,
  \<open>BadPasscodeFormat\<close> 400, \<open>PlateNumberRequired\<close> 400, \<open>DatabaseError\<close> 500, \<open>NoUsersFound\<close> 404,
  \<open>PasscodeRejected\<close> 401 (\<open>Invalid passcode\<close>), \<open>UserFound email fullName\<close> 200,
  \<open>InternalServerError\<close> 500.
\<close>

datatype passcode_response =
    CorsOk
  | MethodNotAllowed
  | BadPasscodeFormat
  | PlateNumberRequired
  | DatabaseError
  | NoUsersFound
  | PasscodeRejected
  | UserFound string string
  | InternalServerError

text \<open>
  The loop over the users. A successful sign-in sets \<open>matchedUser\<close>, signs out and leaves
  the loop; if the sign-out throws, the \<open>catch\<close> continues with the next user and
  \<open>matchedUser\<close> stays set. A failed or throwing sign-in continues with the next user.
\<close>

fun try_users ::
  "(string \<Rightarrow> string \<Rightarrow> auth_outcome) \<Rightarrow> (string \<Rightarrow> bool) \<Rightarrow> string \<Rightarrow> app_user option \<Rightarrow>
     app_user list \<Rightarrow> app_user option \<times> auth_call list" where
  "try_users signIn signOutThrows passcode matchedUser [] = (matchedUser, [])"
| "try_users signIn signOutThrows passcode matchedUser (user # users) =
     (case signIn (email user) passcode of
        AuthOk \<Rightarrow>
          if signOutThrows (email user)
          then (case try_users signIn signOutThrows passcode (Some user) users of
                  (m, calls) \<Rightarrow> (m, SignInWithPassword (email user) passcode # SignOut # calls))
          else (Some user, [SignInWithPassword (email user) passcode, SignOut])
      | _ \<Rightarrow>
          (case try_users signIn signOutThrows passcode matchedUser users of
             (m, calls) \<Rightarrow> (m, SignInWithPassword (email user) passcode # calls)))"

definition auth_with_passcode ::
  "string \<Rightarrow> (jsval \<times> jsval) option \<Rightarrow> string option \<Rightarrow> app_user list \<Rightarrow>
     (string \<Rightarrow> string \<Rightarrow> auth_outcome) \<Rightarrow> (string \<Rightarrow> bool) \<Rightarrow>
     passcode_response \<times> auth_call list" where
  "auth_with_passcode method body fetchError directory signIn signOutThrows =
     (if method = ''OPTIONS'' then (CorsOk, [])
      else if method \<noteq> ''POST'' then (MethodNotAllowed, [])
      else
        (case body of
           None \<Rightarrow> (InternalServerError, [])
         | Some (passcode, plateNumber) \<Rightarrow>
             (case passcode of
                JOther \<Rightarrow> (BadPasscodeFormat, [])
              | JString code \<Rightarrow>
                  if \<not> four_digits code then (BadPasscodeFormat, [])
                  else
                    (case plateNumber of
                       JOther \<Rightarrow> (PlateNumberRequired, [])
                     | JString plate \<Rightarrow>
                         if length (trim plate) = 0 then (PlateNumberRequired, [])
                         else
                           (case select_role_user fetchError directory of
                              Inl msg \<Rightarrow> (DatabaseError, [])
                            | Inr users \<Rightarrow>
                                if length users = 0 then (NoUsersFound, [])
                                else
                                  (case try_users signIn signOutThrows code None users of
                                     (None, calls) \<Rightarrow> (PasscodeRejected, calls)
                                   | (Some matchedUser, calls) \<Rightarrow>
                                       (UserFound (email matchedUser) (full_name matchedUser),
                                        calls)))))))"


section \<open>Vehicle summaries (AdminPanel, groupRecordsByPlate)\<close>

text \<open>
  A fuel record. Plate numbers are compared with \<open>localeCompare\<close> and used as object keys;
  they are kept abstract as a linearly ordered type \<open>'k\<close>, the order being the collation
  (stored plates are upper-cased identifiers, on which the collation is a strict linear
  order). The fill date is the time stamp that \<open>new Date(filling_date).getTime()\<close> yields.
  Quantities are numbers of a linearly ordered type \<open>'n\<close>; addition and division are
  floating-point operations about which nothing is assumed, so they are parameters
  (\<open>arith\<close>). The column \<open>id\<close> is named \<open>rid\<close>, \<open>created_at\<close> is \<open>record_created_at\<close>.
\<close>

record ('k, 'n) FuelRecord =
  rid :: string
  plate_number :: 'k
  filling_date :: int
  fuel_liters :: 'n
  odometer_reading :: "'n option"
  record_created_at :: string
  user_id :: "string option"

record ('k, 'n) GroupedRecord =
  group_plate_number :: 'k
  records :: "('k, 'n) FuelRecord list"
  totalFuel :: 'n
  averageFuel :: 'n
  recordCount :: nat
  latestOdometer :: "'n option"
  firstOdometer :: "'n option"

record 'n arith =
  num_zero :: 'n
  num_add :: "'n \<Rightarrow> 'n \<Rightarrow> 'n"
  num_div :: "'n \<Rightarrow> nat \<Rightarrow> 'n"

text \<open>
  The first \<open>reduce\<close>: each record is pushed onto the array stored under its plate; a plate
  seen for the first time gets a new array. The object is an association list whose keys
  appear in the order in which they were first seen.
\<close>

fun push_record ::
  "('k, 'n) FuelRecord \<Rightarrow> ('k \<times> ('k, 'n) FuelRecord list) list \<Rightarrow>
     ('k \<times> ('k, 'n) FuelRecord list) list" where
  "push_record record [] = [(plate_number record, [record])]"
| "push_record record ((k, rs) # acc) =
     (if k = plate_number record then (k, rs @ [record]) # acc
      else (k, rs) # push_record record acc)"

definition grouped :: "('k, 'n) FuelRecord list \<Rightarrow> ('k \<times> ('k, 'n) FuelRecord list) list" where
  "grouped recs = foldl (\<lambda>acc record. push_record record acc) [] recs"

text \<open>
  One entry of the object becomes one summary: the total is the left-to-right sum of the
  group in arrival order, the records are sorted by descending fill date (the sort is
  stable), the odometer extremes are taken over the readings that are present.
\<close>

definition summarize_group ::
  "'n arith \<Rightarrow> 'k \<times> ('k, 'n::linorder) FuelRecord list \<Rightarrow> ('k, 'n) GroupedRecord" where
  "summarize_group ar entry =
     (case entry of (plate, recs) \<Rightarrow>
        (let totalFuel = foldl (num_add ar) (num_zero ar) (map fuel_liters recs);
             averageFuel = num_div ar totalFuel (length recs);
             sortedRecords = sort_key (\<lambda>r. - filling_date r) recs;
             odometerReadings = List.map_filter odometer_reading sortedRecords;
             latestOdometer =
               (if length odometerReadings > 0 then Some (Max (set odometerReadings)) else None);
             firstOdometer =
               (if length odometerReadings > 0 then Some (Min (set odometerReadings)) else None)
         in \<lparr>group_plate_number = plate, records = sortedRecords, totalFuel = totalFuel,
             averageFuel = averageFuel, recordCount = length sortedRecords,
             latestOdometer = latestOdometer, firstOdometer = firstOdometer\<rparr>))"

definition groupRecordsByPlate ::
  "'n arith \<Rightarrow> ('k::linorder, 'n::linorder) FuelRecord list \<Rightarrow> ('k, 'n) GroupedRecord list" where
  "groupRecordsByPlate ar recs =
     sort_key group_plate_number (map (summarize_group ar) (grouped recs))"

text \<open>
  The fill date decides the record: two records of one plate with the same fill date are
  equal.
\<close>

definition date_decides :: "('k, 'n) FuelRecord list \<Rightarrow> bool" where
  "date_decides xs =
     (\<forall>r\<in>set xs. \<forall>r'\<in>set xs.
        plate_number r = plate_number r' \<and> filling_date r = filling_date r' \<longrightarrow> r = r')"

text \<open>Concrete inputs: integer arithmetic and two fills of one vehicle on the same day.\<close>

definition int_arith :: "int arith" where
  "int_arith = \<lparr>num_zero = 0, num_add = (+), num_div = (\<lambda>a n. a div int n)\<rparr>"

definition fill_a :: "(string, int) FuelRecord" where
  "fill_a = \<lparr>rid = ''r-1'', plate_number = ''ABC-1'', filling_date = 19724, fuel_liters = 10,
             odometer_reading = Some 1200, record_created_at = ''2024-01-02T08:00:00'',
             user_id = None\<rparr>"

definition fill_b :: "(string, int) FuelRecord" where
  "fill_b = \<lparr>rid = ''r-2'', plate_number = ''ABC-1'', filling_date = 19724, fuel_liters = 20,
             odometer_reading = None, record_created_at = ''2024-01-02T17:00:00'',
             user_id = None\<rparr>"

definition fill_c :: "(string, int) FuelRecord" where
  "fill_c = \<lparr>rid = ''r-3'', plate_number = ''AAA-9'', filling_date = 19730, fuel_liters = 5,
             odometer_reading = Some 800, record_created_at = ''2024-01-08T09:00:00'',
             user_id = None\<rparr>"

section \<open>Properties of the write check\<close>

lemma canWriteRecord_iff:
  "canWriteRecord (Some A) v \<longleftrightarrow>
     assigned_vehicles A = [] \<or> toUpperCase v \<in> set (assigned_vehicles A)"
  by (simp add: canWriteRecord_def)

text \<open>
  C5. For an account of role user: with no assigned vehicle the check passes for every
  plate; with assigned vehicles it passes exactly when the upper-cased plate is one of
  them.
\<close>

theorem canWriteRecord_user:
  assumes "role A = User"
  shows "(assigned_vehicles A = [] \<longrightarrow> canWriteRecord (Some A) v) \<and>
         (assigned_vehicles A \<noteq> [] \<longrightarrow>
            (canWriteRecord (Some A) v \<longleftrightarrow> toUpperCase v \<in> set (assigned_vehicles A)))"
  by (simp add: canWriteRecord_iff)

theorem canWriteRecord_user_witness:
  "role driver = User \<and> assigned_vehicles driver \<noteq> [] \<and>
   canWriteRecord (Some driver) ''abc-1'' \<and> \<not> canWriteRecord (Some driver) ''xyz-9'' \<and>
   role (driver\<lparr>assigned_vehicles := []\<rparr>) = User \<and>
   canWriteRecord (Some (driver\<lparr>assigned_vehicles := []\<rparr>)) ''xyz-9''"
  using canWriteRecord_user [of driver "''abc-1''"]
        canWriteRecord_user [of driver "''xyz-9''"]
        canWriteRecord_user [of "driver\<lparr>assigned_vehicles := []\<rparr>" "''xyz-9''"]
  by (simp add: driver_def toUpperCase_def upper_table_def)

text \<open>
  C2. The claim that an administrator may write for every plate fails: the check does
  not look at the role, so an administrator whose assignment is \<open>[ABC-1]\<close> is refused for
  \<open>XYZ-9\<close>.
\<close>

theorem canWriteRecord_admin_counterexample:
  "role scoped_admin = Admin \<and> assigned_vehicles scoped_admin \<noteq> [] \<and>
   toUpperCase ''XYZ-9'' \<notin> set (assigned_vehicles scoped_admin) \<and>
   \<not> canWriteRecord (Some scoped_admin) ''XYZ-9'' \<and>
   handleSubmit (Some scoped_admin) ''XYZ-9'' None = NotAuthorized ''XYZ-9''"
  by (simp add: handleSubmit_def canWriteRecord_def scoped_admin_def toUpperCase_def
      upper_table_def)

text \<open>
  C2, as the code has it. An administrator is subject to the same rule as every other
  account: the check passes exactly when the assignment is empty or holds the upper-cased
  plate. An administrator is unrestricted when its assignment is empty, which is how the
  seeded administrator row is stored.
\<close>

theorem canWriteRecord_admin:
  assumes "role A = Admin"
  shows "canWriteRecord (Some A) v \<longleftrightarrow>
           assigned_vehicles A = [] \<or> toUpperCase v \<in> set (assigned_vehicles A)"
  by (rule canWriteRecord_iff)

theorem canWriteRecord_admin_witness:
  "role scoped_admin = Admin \<and> canWriteRecord (Some scoped_admin) ''abc-1'' \<and>
   role (scoped_admin\<lparr>assigned_vehicles := []\<rparr>) = Admin \<and>
   canWriteRecord (Some (scoped_admin\<lparr>assigned_vehicles := []\<rparr>)) ''XYZ-9''"
  using canWriteRecord_admin [of scoped_admin "''abc-1''"]
        canWriteRecord_admin [of "scoped_admin\<lparr>assigned_vehicles := []\<rparr>" "''XYZ-9''"]
  by (simp add: scoped_admin_def toUpperCase_def upper_table_def)


section \<open>Properties of the string functions\<close>

lemma upper_table_range:
  "map_of upper_table c = Some d \<Longrightarrow>
     c \<in> set ''abcdefghijklmnopqrstuvwxyz'' \<and> d \<in> set ''ABCDEFGHIJKLMNOPQRSTUVWXYZ''"
  unfolding upper_table_def
  by (metis map_of_SomeD set_zip_leftD set_zip_rightD)

lemma upper_table_upper:
  "d \<in> set ''ABCDEFGHIJKLMNOPQRSTUVWXYZ'' \<Longrightarrow> map_of upper_table d = None"
  unfolding map_of_eq_None_iff upper_table_def by auto

lemma letters_not_space:
  "c \<in> set ''abcdefghijklmnopqrstuvwxyz'' \<or> c \<in> set ''ABCDEFGHIJKLMNOPQRSTUVWXYZ'' \<Longrightarrow>
     \<not> isWhiteSpace c"
  unfolding isWhiteSpace_def by auto

lemma upper_char_idem:
  "map_of upper_table c = Some d \<Longrightarrow> map_of upper_table d = None"
  using upper_table_range upper_table_upper by blast

lemma toUpperCase_idem: "toUpperCase (toUpperCase s) = toUpperCase s"
  by (induction s) (auto simp: toUpperCase_def upper_char_idem split: option.splits)

lemma upper_char_space:
  "map_of upper_table c = Some d \<Longrightarrow> \<not> isWhiteSpace c \<and> \<not> isWhiteSpace d"
  using upper_table_range letters_not_space by blast

lemma dropWhile_toUpperCase:
  "dropWhile isWhiteSpace (toUpperCase s) = toUpperCase (dropWhile isWhiteSpace s)"
proof (induction s)
  case Nil
  then show ?case by (simp add: toUpperCase_def)
next
  case (Cons c s)
  show ?case
  proof (cases "map_of upper_table c")
    case None
    with Cons show ?thesis by (simp add: toUpperCase_def)
  next
    case (Some d)
    with upper_char_space [OF Some] show ?thesis by (simp add: toUpperCase_def)
  qed
qed

lemma rev_toUpperCase: "rev (toUpperCase s) = toUpperCase (rev s)"
  by (simp add: toUpperCase_def rev_map)

lemma trim_toUpperCase: "trim (toUpperCase s) = toUpperCase (trim s)"
  by (simp add: trim_def dropWhile_toUpperCase rev_toUpperCase)

lemma dropWhile_last:
  "dropWhile P xs \<noteq> [] \<Longrightarrow> last (dropWhile P xs) = last xs"
  by (induction xs) (auto split: if_splits)

lemma dropWhile_fixed: "xs = [] \<or> \<not> P (hd xs) \<Longrightarrow> dropWhile P xs = xs"
  by (cases xs) auto

lemma dropWhile_hd: "dropWhile P xs = [] \<or> \<not> P (hd (dropWhile P xs))"
  by (induction xs) auto

lemma trim_idem: "trim (trim s) = trim s"
proof -
  define t where "t = dropWhile isWhiteSpace s"
  define u where "u = dropWhile isWhiteSpace (rev t)"
  have t: "t = [] \<or> \<not> isWhiteSpace (hd t)"
    unfolding t_def by (rule dropWhile_hd)
  have "rev u = [] \<or> \<not> isWhiteSpace (hd (rev u))"
  proof (cases "u = []")
    case True
    then show ?thesis by simp
  next
    case False
    then have "last u = last (rev t)"
      unfolding u_def by (rule dropWhile_last)
    moreover from False have "t \<noteq> []" by (auto simp: u_def)
    ultimately have "hd (rev u) = hd t"
      using False by (simp add: hd_rev last_rev)
    with t \<open>t \<noteq> []\<close> show ?thesis by simp
  qed
  then have "dropWhile isWhiteSpace (rev u) = rev u"
    by (rule dropWhile_fixed)
  moreover have "dropWhile isWhiteSpace u = u"
    unfolding u_def by (rule dropWhile_idem)
  ultimately show ?thesis
    by (simp add: trim_def t_def [symmetric] u_def [symmetric])
qed

lemma count_list_filter_map:
  "Q p \<Longrightarrow> count_list (filter Q (map f xs)) p = length (filter (\<lambda>e. f e = p) xs)"
  by (induction xs) auto

lemma split_nonempty: "split sep s \<noteq> []"
  by (induction s) (auto split: list.splits)

lemma split_pieces: "w \<in> set (split sep s) \<Longrightarrow> sep \<notin> set w"
  by (induction s arbitrary: w) (auto split: if_splits list.splits)

lemma join_split: "join sep (split sep s) = s"
proof (induction s)
  case Nil
  then show ?case by simp
next
  case (Cons c s)
  obtain w ws where "split sep s = w # ws"
    using split_nonempty [of sep s] by (cases "split sep s") auto
  with Cons show ?case
    by (cases ws) auto
qed


section \<open>Properties of the directory's upsert\<close>

lemma upsert_Inr:
  assumes "upsert fault row tbl = Inr tbl'"
  shows "fault = None"
    and "\<not> list_ex (\<lambda>r. uid r \<noteq> uid row \<and> email r = email row) tbl"
    and "tbl' = (if list_ex (\<lambda>r. uid r = uid row) tbl
                 then map (\<lambda>r. if uid r = uid row then row\<lparr>created_at := created_at r\<rparr> else r) tbl
                 else tbl @ [row])"
  using assms by (auto simp: upsert_def split: option.splits if_splits)

lemma map_replace_absent:
  "\<not> list_ex (\<lambda>r. uid r = i) tbl \<Longrightarrow> map (\<lambda>r. if uid r = i then g r else r) tbl = tbl"
  by (induction tbl) auto

lemma filter_email_replaced:
  assumes "distinct (map uid tbl)"
      and "list_ex (\<lambda>r. uid r = i) tbl"
      and "\<not> list_ex (\<lambda>r. uid r \<noteq> i \<and> email r = e) tbl"
      and "\<And>r. email (g r) = e"
  shows "\<exists>r. filter (\<lambda>r. email r = e) (map (\<lambda>r. if uid r = i then g r else r) tbl) = [r]"
  using assms
proof (induction tbl)
  case Nil
  then show ?case by simp
next
  case (Cons a tbl)
  show ?case
  proof (cases "uid a = i")
    case True
    from Cons.prems(1) True have absent: "\<forall>r\<in>set tbl. uid r \<noteq> i"
      by (auto simp: image_iff)
    with Cons.prems(3) have "filter (\<lambda>r. email r = e) tbl = []"
      by (auto simp: list_ex_iff filter_empty_conv)
    with True absent Cons.prems(4) show ?thesis
      by (simp add: map_replace_absent list_ex_iff)
  next
    case False
    with Cons.prems have "email a \<noteq> e" by auto
    moreover from Cons.prems False
    have "\<exists>r. filter (\<lambda>r. email r = e) (map (\<lambda>r. if uid r = i then g r else r) tbl) = [r]"
      by (intro Cons.IH) auto
    ultimately show ?thesis using False by simp
  qed
qed

lemma upsert_single:
  assumes "distinct (map uid tbl)" and "upsert fault row tbl = Inr tbl'"
  shows "\<exists>r. filter (\<lambda>r. email r = email row) tbl' = [r]"
proof (cases "list_ex (\<lambda>r. uid r = uid row) tbl")
  case True
  have "\<exists>r. filter (\<lambda>r. email r = email row)
          (map (\<lambda>r. if uid r = uid row then row\<lparr>created_at := created_at r\<rparr> else r) tbl) = [r]"
    using assms(1) True upsert_Inr(2) [OF assms(2)]
    by (rule filter_email_replaced) simp
  with True upsert_Inr(3) [OF assms(2)] show ?thesis by simp
next
  case False
  with upsert_Inr(2) [OF assms(2)] have "filter (\<lambda>r. email r = email row) tbl = []"
    by (auto simp: list_ex_iff filter_empty_conv)
  with False upsert_Inr(3) [OF assms(2)] show ?thesis by simp
qed

lemma upsert_stored:
  assumes "upsert fault row tbl = Inr tbl'"
  shows "\<exists>r\<in>set tbl'. r\<lparr>created_at := created_at row\<rparr> = row"
proof (cases "list_ex (\<lambda>r. uid r = uid row) tbl")
  case True
  then obtain a where "a \<in> set tbl" "uid a = uid row"
    by (auto simp: list_ex_iff)
  then have "row\<lparr>created_at := created_at a\<rparr> \<in> set tbl'"
    using True upsert_Inr(3) [OF assms] by force
  then show ?thesis
    by (rule rev_bexI) simp
next
  case False
  with upsert_Inr(3) [OF assms] show ?thesis by simp
qed

lemma upsert_new_rows:
  assumes "upsert fault row tbl = Inr tbl'" and "r \<in> set tbl'"
  shows "r \<in> set tbl \<or> role r = role row"
  using assms(2) upsert_Inr(3) [OF assms(1)]
  by (auto split: if_splits)

lemma upsert_other_rows:
  assumes "upsert fault row tbl = Inr tbl'" and "\<not> list_ex (\<lambda>r. uid r = uid row) tbl"
  shows "tbl' = tbl @ [row]"
  using assms(2) upsert_Inr(3) [OF assms(1)] by simp


lemma upsert_admins:
  assumes "upsert fault row tbl = Inr tbl'" and "role row = User"
      and "\<not> list_ex (\<lambda>r. uid r = uid row \<and> role r = Admin) tbl"
  shows "filter (\<lambda>r. role r = Admin) tbl' = filter (\<lambda>r. role r = Admin) tbl"
proof -
  have "filter (\<lambda>r. role r = Admin)
          (map (\<lambda>r. if uid r = uid row then row\<lparr>created_at := created_at r\<rparr> else r) tbl) =
        filter (\<lambda>r. role r = Admin) tbl"
    using assms(2,3) by (induction tbl) auto
  with upsert_Inr(3) [OF assms(1)] assms(2) show ?thesis
    by simp
qed


lemma filter_distinct_key:
  "distinct (map f xs) \<Longrightarrow> filter (\<lambda>r. f r = k) xs = [] \<or> (\<exists>r. filter (\<lambda>r. f r = k) xs = [r])"
proof (induction xs)
  case Nil
  then show ?case by simp
next
  case (Cons a xs)
  show ?case
  proof (cases "f a = k")
    case True
    with Cons.prems have "filter (\<lambda>r. f r = k) xs = []"
      by (auto simp: filter_empty_conv image_iff)
    with True show ?thesis by simp
  next
    case False
    with Cons show ?thesis by simp
  qed
qed

lemma single_none_distinct:
  assumes "distinct (map email tbl)" and "single (filter (\<lambda>r. email r = e) tbl) = None"
  shows "\<not> list_ex (\<lambda>r. email r = e) tbl"
  using filter_distinct_key [OF assms(1), of e] assms(2)
  by (auto simp: single_def list_ex_iff filter_empty_conv)

section \<open>Properties of createUser with the trigger\<close>

lemma createUser_Inl:
  "auth_admin_createUser outcome stamp e p st = (Inl msg, st1) \<Longrightarrow> st1 = st"
  by (auto simp: auth_admin_createUser_def Let_def split: sum.splits if_splits option.splits)

lemma createUser_Inr:
  assumes "auth_admin_createUser outcome stamp e p st = (Inr i, st1)"
  shows "outcome = Inr i"
    and "auth_users st1 = auth_users st @ [\<lparr>auth_id = i, auth_email = e, auth_password = p\<rparr>]"
    and "on_auth_user_created st1 = on_auth_user_created st"
    and "app_users st1 = app_users st \<or>
         (on_auth_user_created st \<and> \<not> list_ex (\<lambda>r. uid r = i) (app_users st) \<and>
          app_users st1 = app_users st @
            [\<lparr>uid = i, email = e, full_name = e, role = User, assigned_vehicles = [],
              created_at = stamp, created_by = None\<rparr>])"
  using assms
  by (auto simp: auth_admin_createUser_def handle_new_user_def Let_def
      split: sum.splits if_splits option.splits)

lemma createUser_distinct:
  assumes "auth_admin_createUser outcome stamp e p st = (Inr i, st1)"
      and "distinct (map uid (app_users st))"
  shows "distinct (map uid (app_users st1))"
  using createUser_Inr(4) [OF assms(1)] assms(2)
  by (auto simp: list_ex_iff)

lemma createUser_rows:
  assumes "auth_admin_createUser outcome stamp e p st = (Inr i, st1)"
      and "r \<in> set (app_users st1)"
  shows "r \<in> set (app_users st) \<or> role r = User"
  using createUser_Inr(4) [OF assms(1)] assms(2) by auto

lemma createUser_admins:
  assumes "auth_admin_createUser outcome stamp e p st = (Inr i, st1)"
  shows "filter (\<lambda>r. role r = Admin) (app_users st1) = filter (\<lambda>r. role r = Admin) (app_users st)"
    and "list_ex (\<lambda>r. uid r = i \<and> role r = Admin) (app_users st1) =
         list_ex (\<lambda>r. uid r = i \<and> role r = Admin) (app_users st)"
  using createUser_Inr(4) [OF assms] by auto


section \<open>Properties of create-user\<close>

text \<open>The ways in which a call can end after it has reached the credential store.\<close>

lemma create_user_Created:
  assumes "create_user env caller body st = (Created msg, st', calls)"
  shows "\<exists>i st1.
           auth_admin_createUser (createUser_result env) (now env)
             (toLowerCase (body_email body)) (body_password body) st = (Inr i, st1) \<and>
           upsert (upsert_error env)
             \<lparr>uid = i, email = toLowerCase (body_email body), full_name = body_fullName body,
              role = User, assigned_vehicles = vehiclesArray (body_assignedVehicles body),
              created_at = now env, created_by = Some caller\<rparr> (app_users st1)
             = Inr (app_users st') \<and>
           auth_users st' = auth_users st1 \<and>
           calls = [CreateUser (toLowerCase (body_email body)) (body_password body)]"
  using assms
  by (auto simp: create_user_def Let_def split: if_splits option.splits sum.splits prod.splits)

lemma create_user_InsertFailed:
  assumes "create_user env caller body st = (InsertFailed msg, st', calls)"
  shows "\<exists>i st1.
           auth_admin_createUser (createUser_result env) (now env)
             (toLowerCase (body_email body)) (body_password body) st = (Inr i, st1) \<and>
           calls = [CreateUser (toLowerCase (body_email body)) (body_password body),
                    DeleteUser i] \<and>
           app_users st' = app_users st1 \<and>
           auth_users st' =
             snd (auth_admin_deleteUser (deleteUser_error env) i (auth_users st1))"
  using assms
  by (auto simp: create_user_def Let_def split: if_splits option.splits sum.splits prod.splits)

lemma create_user_directory:
  assumes "create_user env caller body st = (resp, st', calls)"
  shows "app_users st' = app_users st \<or>
         (four_digits (body_password body) \<and>
          existingUser (lookup_error env) (toLowerCase (body_email body)) (app_users st) = None \<and>
          (\<exists>i st1.
            auth_admin_createUser (createUser_result env) (now env)
              (toLowerCase (body_email body)) (body_password body) st = (Inr i, st1) \<and>
            (app_users st' = app_users st1 \<or>
             upsert (upsert_error env)
               \<lparr>uid = i, email = toLowerCase (body_email body), full_name = body_fullName body,
                role = User, assigned_vehicles = vehiclesArray (body_assignedVehicles body),
                created_at = now env, created_by = Some caller\<rparr> (app_users st1)
               = Inr (app_users st'))))"
proof (cases "auth_admin_createUser (createUser_result env) (now env)
                (toLowerCase (body_email body)) (body_password body) st")
  case (Pair res st1)
  show ?thesis
  proof (cases res)
    case (Inl msg)
    with Pair createUser_Inl [of _ _ _ _ st msg st1] assms show ?thesis
      by (auto simp: create_user_def split: if_splits option.splits)
  next
    case (Inr i)
    with Pair assms show ?thesis
      by (auto simp: create_user_def Let_def split: if_splits option.splits sum.splits)
  qed
qed

text \<open>
  The call in which the credential is created and the directory then refuses the row:
  the function answers with the directory's error, its store calls are the creation and
  then the deletion of the new identity, and the credential store is what the deletion
  left. When the deletion succeeds the new credential is gone.
\<close>

lemma create_user_compensates:
  assumes "four_digits (body_password body)"
      and "existingUser (lookup_error env) (toLowerCase (body_email body)) (app_users st) = None"
      and "auth_admin_createUser (createUser_result env) (now env)
             (toLowerCase (body_email body)) (body_password body) st = (Inr i, st1)"
      and "upsert (upsert_error env)
             \<lparr>uid = i, email = toLowerCase (body_email body), full_name = body_fullName body,
              role = User, assigned_vehicles = vehiclesArray (body_assignedVehicles body),
              created_at = now env, created_by = Some caller\<rparr> (app_users st1) = Inl msg"
  shows "create_user env caller body st =
           (InsertFailed msg,
            st1\<lparr>auth_users :=
                   snd (auth_admin_deleteUser (deleteUser_error env) i (auth_users st1))\<rparr>,
            [CreateUser (toLowerCase (body_email body)) (body_password body), DeleteUser i])"
    and "deleteUser_error env = None \<Longrightarrow>
           auth_users (fst (snd (create_user env caller body st))) =
           filter (\<lambda>a. auth_id a \<noteq> i) (auth_users st)"
proof -
  show run: "create_user env caller body st =
           (InsertFailed msg,
            st1\<lparr>auth_users :=
                   snd (auth_admin_deleteUser (deleteUser_error env) i (auth_users st1))\<rparr>,
            [CreateUser (toLowerCase (body_email body)) (body_password body), DeleteUser i])"
    using assms by (simp add: create_user_def Let_def)
  show "auth_users (fst (snd (create_user env caller body st))) =
          filter (\<lambda>a. auth_id a \<noteq> i) (auth_users st)"
    if "deleteUser_error env = None"
    using that createUser_Inr(2) [OF assms(3)]
    by (simp add: run auth_admin_deleteUser_def)
qed

lemma vehiclesArray_entries:
  assumes "v \<in> set (vehiclesArray csv)"
  shows "v \<noteq> [] \<and> trim v = v \<and> toUpperCase v = v"
  using assms
  by (auto simp: vehiclesArray_def trim_toUpperCase trim_idem toUpperCase_idem)

text \<open>The string functions on the concrete inputs.\<close>

lemma lower_examples:
  "toLowerCase ''New.Driver@Fleet.example'' = ''new.driver@fleet.example''"
  "toLowerCase ''NEW.DRIVER@fleet.example'' = ''new.driver@fleet.example''"
  by (simp_all add: toLowerCase_def lower_table_def)

lemma vehiclesArray_example: "vehiclesArray ''abc-1, ABC-1'' = [''ABC-1'', ''ABC-1'']"
  by (simp add: vehiclesArray_def toUpperCase_def upper_table_def trim_def isWhiteSpace_def)

lemma four_digits_examples: "four_digits ''1234''" "\<not> four_digits ''12345''"
  by (simp_all add: four_digits_def isDigit_def)

lemmas run_defs = create_user_def ok_env_def fail_env_def twice_body_def empty_backend_def
  admin_backend_def after_first_def new_credential_def scoped_admin_def single_def
  existingUser_def
  auth_admin_createUser_def handle_new_user_def auth_admin_deleteUser_def upsert_def
  lower_examples vehiclesArray_example four_digits_examples



text \<open>The same call with a deletion that succeeds leaves the credential store as it was.\<close>

lemma create_user_compensates_example:
  "create_user (fail_env\<lparr>deleteUser_error := None\<rparr>) ''a-1'' twice_body
     (empty_backend\<lparr>on_auth_user_created := False\<rparr>) =
     (InsertFailed ''insert failed'', empty_backend\<lparr>on_auth_user_created := False\<rparr>,
      [CreateUser ''new.driver@fleet.example'' ''1234'', DeleteUser ''id-7''])"
  by (simp add: run_defs)

text \<open>
  C7. After a successful call, a second call whose e-mail has the same lower-case form
  (and whose pass code is four digits, so that it passes the format check that comes
  first) fails with \<open>User with this email already exists\<close>, makes no call to the credential
  store and leaves both stores unchanged. The lookup's read is taken to succeed, and the
  directory's primary key is assumed (no two rows share an \<open>id\<close>).
\<close>

theorem create_user_twice:
  assumes "distinct (map uid (app_users st))"
      and "create_user env1 caller1 body1 st = (Created msg, st1, calls1)"
      and "toLowerCase (body_email body2) = toLowerCase (body_email body1)"
      and "four_digits (body_password body2)"
      and "lookup_error env2 = None"
  shows "create_user env2 caller2 body2 st1 = (UserExists, st1, [])"
proof -
  from create_user_Created [OF assms(2)] obtain i st0 where
    run: "auth_admin_createUser (createUser_result env1) (now env1)
            (toLowerCase (body_email body1)) (body_password body1) st = (Inr i, st0)"
    and up: "upsert (upsert_error env1)
       \<lparr>uid = i, email = toLowerCase (body_email body1), full_name = body_fullName body1,
        role = User, assigned_vehicles = vehiclesArray (body_assignedVehicles body1),
        created_at = now env1, created_by = Some caller1\<rparr> (app_users st0)
     = Inr (app_users st1)"
    by blast
  from createUser_distinct [OF run assms(1)] have "distinct (map uid (app_users st0))" .
  from upsert_single [OF this up] obtain r where
    "filter (\<lambda>r. email r = toLowerCase (body_email body1)) (app_users st1) = [r]"
    by auto
  with assms(3,4,5) show ?thesis
    by (simp add: create_user_def existingUser_def single_def)
qed

theorem create_user_twice_witness:
  "distinct (map uid (app_users empty_backend)) \<and>
   create_user ok_env ''a-1'' twice_body empty_backend =
     (Created ''User created successfully! Login: New.Driver@Fleet.example / Password: 1234'',
      after_first, [CreateUser ''new.driver@fleet.example'' ''1234'']) \<and>
   toLowerCase (body_email (twice_body\<lparr>body_email := ''NEW.DRIVER@fleet.example''\<rparr>)) =
     toLowerCase (body_email twice_body) \<and>
   four_digits (body_password (twice_body\<lparr>body_email := ''NEW.DRIVER@fleet.example''\<rparr>)) \<and>
   lookup_error fail_env = None \<and>
   create_user fail_env ''a-2'' (twice_body\<lparr>body_email := ''NEW.DRIVER@fleet.example''\<rparr>)
     after_first = (UserExists, after_first, [])"
  using create_user_twice [of empty_backend ok_env "''a-1''" twice_body
      "''User created successfully! Login: New.Driver@Fleet.example / Password: 1234''"
      after_first "[CreateUser ''new.driver@fleet.example'' ''1234'']"
      "twice_body\<lparr>body_email := ''NEW.DRIVER@fleet.example''\<rparr>" fail_env "''a-2''"]
  by (simp add: run_defs)

text \<open>
  What the second call does outside these conditions. A pass code that is not four
  digits is refused by the format check before anything is read. When the lookup's read
  fails, its error is discarded and the function goes on to the credential store; if the
  store refuses the e-mail, the call fails with the store's message and both stores are
  unchanged.
\<close>

lemma create_user_twice_format:
  "\<not> four_digits (body_password body2) \<Longrightarrow>
     create_user env2 caller2 body2 st1 = (PasswordFormat, st1, [])"
  by (simp add: create_user_def)

lemma create_user_twice_failed_read:
  assumes "four_digits (body_password body2)"
      and "lookup_error env2 = Some err"
      and "createUser_result env2 = Inl m"
  shows "create_user env2 caller2 body2 st1 =
           (AuthFailed m, st1,
            [CreateUser (toLowerCase (body_email body2)) (body_password body2)])"
  using assms
  by (simp add: create_user_def existingUser_def auth_admin_createUser_def)

lemma create_user_twice_examples:
  "create_user ok_env ''a-1'' (twice_body\<lparr>body_password := ''12345''\<rparr>) after_first =
     (PasswordFormat, after_first, [])"
  "create_user (ok_env\<lparr>lookup_error := Some ''timeout'',
       createUser_result := Inl ''already registered''\<rparr>) ''a-1'' twice_body after_first =
     (AuthFailed ''already registered'', after_first,
      [CreateUser ''new.driver@fleet.example'' ''1234''])"
  by (simp_all add: run_defs)

text \<open>
  C8. The claim that the stored collection is deduplicated fails: for the list
  \<open>abc-1, ABC-1\<close> the stored row holds the plate \<open>ABC-1\<close> twice.
\<close>

theorem create_user_vehicles_counterexample:
  "body_assignedVehicles twice_body = ''abc-1, ABC-1'' \<and>
   fst (snd (create_user ok_env ''a-1'' twice_body empty_backend)) = after_first \<and>
   map assigned_vehicles (app_users after_first) = [[''ABC-1'', ''ABC-1'']] \<and>
   count_list [''ABC-1'', ''ABC-1''] ''ABC-1'' = 2"
  by (simp add: run_defs)

text \<open>
  C8, as the code has it. After a successful call the directory holds a row for the
  generated identity whose assigned vehicles are the pieces of the list between commas,
  each trimmed and then upper-cased, without the empty ones, in the order of the list and
  with repetitions kept: every stored entry is non-empty, trimmed and upper-case, and a
  plate is stored as many times as the list names it.
\<close>

theorem create_user_vehicles:
  assumes "create_user env caller body st = (Created msg, st', calls)"
  shows "\<exists>row\<in>set (app_users st').
           createUser_result env = Inr (uid row) \<and>
           assigned_vehicles row =
             filter (\<lambda>v. v \<noteq> [])
               (map (\<lambda>e. toUpperCase (trim e)) (split CHR '','' (body_assignedVehicles body))) \<and>
           (\<forall>v\<in>set (assigned_vehicles row). v \<noteq> [] \<and> trim v = v \<and> toUpperCase v = v) \<and>
           (\<forall>p. p \<noteq> [] \<longrightarrow>
              count_list (assigned_vehicles row) p =
              length (filter (\<lambda>e. toUpperCase (trim e) = p)
                        (split CHR '','' (body_assignedVehicles body))))"
proof -
  from create_user_Created [OF assms] obtain i st1 where
    run: "auth_admin_createUser (createUser_result env) (now env)
            (toLowerCase (body_email body)) (body_password body) st = (Inr i, st1)"
    and up: "upsert (upsert_error env)
             \<lparr>uid = i, email = toLowerCase (body_email body), full_name = body_fullName body,
              role = User, assigned_vehicles = vehiclesArray (body_assignedVehicles body),
              created_at = now env, created_by = Some caller\<rparr> (app_users st1)
             = Inr (app_users st')"
    by blast
  note i = createUser_Inr(1) [OF run]
  from upsert_stored [OF up] obtain r where r: "r \<in> set (app_users st')"
    and eq: "r\<lparr>created_at := now env\<rparr> =
             \<lparr>uid = i, email = toLowerCase (body_email body), full_name = body_fullName body,
              role = User, assigned_vehicles = vehiclesArray (body_assignedVehicles body),
              created_at = now env, created_by = Some caller\<rparr>"
    by auto
  from eq have "uid (r\<lparr>created_at := now env\<rparr>) = i"
    and "assigned_vehicles (r\<lparr>created_at := now env\<rparr>) =
         vehiclesArray (body_assignedVehicles body)"
    by simp_all
  then have uid: "uid r = i"
    and av: "assigned_vehicles r = vehiclesArray (body_assignedVehicles body)"
    by simp_all
  have "assigned_vehicles r =
          filter (\<lambda>v. v \<noteq> [])
            (map (\<lambda>e. toUpperCase (trim e)) (split CHR '','' (body_assignedVehicles body)))"
    by (simp add: av vehiclesArray_def)
  moreover have "\<forall>v\<in>set (assigned_vehicles r). v \<noteq> [] \<and> trim v = v \<and> toUpperCase v = v"
    using vehiclesArray_entries by (simp add: av)
  moreover have "\<forall>p. p \<noteq> [] \<longrightarrow>
              count_list (assigned_vehicles r) p =
              length (filter (\<lambda>e. toUpperCase (trim e) = p)
                        (split CHR '','' (body_assignedVehicles body)))"
    by (simp add: av vehiclesArray_def count_list_filter_map)
  ultimately show ?thesis using r i uid by blast
qed

theorem create_user_vehicles_witness:
  "create_user ok_env ''a-1'' twice_body empty_backend =
     (Created ''User created successfully! Login: New.Driver@Fleet.example / Password: 1234'',
      after_first, [CreateUser ''new.driver@fleet.example'' ''1234'']) \<and>
   (\<exists>row\<in>set (app_users after_first).
      uid row = ''id-7'' \<and> assigned_vehicles row = [''ABC-1'', ''ABC-1''])"
  using create_user_vehicles [of ok_env "''a-1''" twice_body empty_backend
      "''User created successfully! Login: New.Driver@Fleet.example / Password: 1234''"
      after_first "[CreateUser ''new.driver@fleet.example'' ''1234'']"]
  by (simp add: run_defs)

text \<open>
  C10. Whatever a call of create-user does, every row of the directory afterwards is a
  row from before or has role user, and the rows of role admin are the same before and
  after. For the second part the identity that the credential store generates must not
  be the identity of an administrator's row: with the trigger installed and the lookup
  read, the directory's constraints (unique e-mail, primary key) see to that; otherwise
  this is the freshness of generated identities.
\<close>

theorem create_user_role:
  assumes "create_user env caller body st = (resp, st', calls)"
  shows "(\<forall>r\<in>set (app_users st'). r \<in> set (app_users st) \<or> role r = User) \<and>
         ((on_auth_user_created st \<and> distinct (map email (app_users st)) \<and>
           lookup_error env = None) \<or>
          (\<forall>i. createUser_result env = Inr i \<longrightarrow>
                \<not> list_ex (\<lambda>r. uid r = i \<and> role r = Admin) (app_users st)) \<longrightarrow>
            filter (\<lambda>r. role r = Admin) (app_users st') =
            filter (\<lambda>r. role r = Admin) (app_users st))"
  using create_user_directory [OF assms]
proof
  assume "app_users st' = app_users st"
  then show ?thesis by simp
next
  assume "four_digits (body_password body) \<and>
          existingUser (lookup_error env) (toLowerCase (body_email body)) (app_users st) = None \<and>
          (\<exists>i st1.
            auth_admin_createUser (createUser_result env) (now env)
              (toLowerCase (body_email body)) (body_password body) st = (Inr i, st1) \<and>
            (app_users st' = app_users st1 \<or>
             upsert (upsert_error env)
               \<lparr>uid = i, email = toLowerCase (body_email body), full_name = body_fullName body,
                role = User, assigned_vehicles = vehiclesArray (body_assignedVehicles body),
                created_at = now env, created_by = Some caller\<rparr> (app_users st1)
               = Inr (app_users st')))"
  then obtain i st1 where
    lookup: "existingUser (lookup_error env) (toLowerCase (body_email body)) (app_users st) = None"
    and run: "auth_admin_createUser (createUser_result env) (now env)
            (toLowerCase (body_email body)) (body_password body) st = (Inr i, st1)"
    and rest: "app_users st' = app_users st1 \<or>
             upsert (upsert_error env)
               \<lparr>uid = i, email = toLowerCase (body_email body), full_name = body_fullName body,
                role = User, assigned_vehicles = vehiclesArray (body_assignedVehicles body),
                created_at = now env, created_by = Some caller\<rparr> (app_users st1)
               = Inr (app_users st')"
    by blast
  define row where "row = \<lparr>uid = i, email = toLowerCase (body_email body),
    full_name = body_fullName body, role = User,
    assigned_vehicles = vehiclesArray (body_assignedVehicles body),
    created_at = now env, created_by = Some caller\<rparr>"
  have row: "uid row = i" "role row = User"
    by (simp_all add: row_def)
  from rest have rest': "app_users st' = app_users st1 \<or>
      upsert (upsert_error env) row (app_users st1) = Inr (app_users st')"
    by (simp add: row_def)
  note i = createUser_Inr(1) [OF run]
  have rows: "r \<in> set (app_users st) \<or> role r = User" if "r \<in> set (app_users st')" for r
    using rest'
  proof
    assume "app_users st' = app_users st1"
    with that createUser_rows [OF run] show ?thesis by simp
  next
    assume "upsert (upsert_error env) row (app_users st1) = Inr (app_users st')"
    from upsert_new_rows [OF this that] row(2) createUser_rows [OF run] show ?thesis by auto
  qed
  have admins: "filter (\<lambda>r. role r = Admin) (app_users st') =
                filter (\<lambda>r. role r = Admin) (app_users st)"
    if fresh: "\<not> list_ex (\<lambda>r. uid r = i \<and> role r = Admin) (app_users st)"
    using rest'
  proof
    assume "app_users st' = app_users st1"
    with createUser_admins(1) [OF run] show ?thesis by simp
  next
    assume up: "upsert (upsert_error env) row (app_users st1) = Inr (app_users st')"
    from fresh createUser_admins(2) [OF run] row(1)
    have "\<not> list_ex (\<lambda>r. uid r = uid row \<and> role r = Admin) (app_users st1)"
      by simp
    from upsert_admins [OF up row(2) this] createUser_admins(1) [OF run] show ?thesis
      by simp
  qed
  have schema: "\<not> list_ex (\<lambda>r. uid r = i \<and> role r = Admin) (app_users st)"
    if "on_auth_user_created st" and "distinct (map email (app_users st))"
      and "lookup_error env = None"
  proof -
    from that(3) lookup have "single (filter (\<lambda>r. email r = toLowerCase (body_email body))
        (app_users st)) = None"
      by (simp add: existingUser_def)
    with that(2) have "\<not> list_ex (\<lambda>r. email r = toLowerCase (body_email body)) (app_users st)"
      by (rule single_none_distinct)
    with run that(1) have "\<not> list_ex (\<lambda>r. uid r = i) (app_users st)"
      by (auto simp: auth_admin_createUser_def handle_new_user_def Let_def
          split: sum.splits if_splits)
    then show ?thesis by (auto simp: list_ex_iff)
  qed
  from rows admins schema i show ?thesis by blast
qed

theorem create_user_role_witness:
  "on_auth_user_created admin_backend \<and> distinct (map email (app_users admin_backend)) \<and>
   lookup_error ok_env = None \<and> createUser_result ok_env = Inr ''id-7'' \<and>
   \<not> list_ex (\<lambda>r. uid r = ''id-7'' \<and> role r = Admin) (app_users admin_backend) \<and>
   filter (\<lambda>r. role r = Admin)
     (app_users (fst (snd (create_user ok_env ''a-1'' twice_body admin_backend)))) =
   [scoped_admin] \<and>
   map role (app_users (fst (snd (create_user ok_env ''a-1'' twice_body admin_backend)))) =
   [Admin, User]"
  using create_user_role [of ok_env "''a-1''" twice_body admin_backend
      "fst (create_user ok_env ''a-1'' twice_body admin_backend)"
      "fst (snd (create_user ok_env ''a-1'' twice_body admin_backend))"
      "snd (snd (create_user ok_env ''a-1'' twice_body admin_backend))"]
  by (simp add: run_defs)


section \<open>Properties of handleSignIn\<close>

lemma find_first_candidate:
  "filter (\<lambda>u. Q u \<and> P u) xs = c # cs \<Longrightarrow> find P (filter Q xs) = Some c"
  by (induction xs) (auto split: if_splits)

lemma find_no_candidate:
  "filter (\<lambda>u. Q u \<and> P u) xs = [] \<Longrightarrow> find P (filter Q xs) = None"
  by (induction xs) (auto split: if_splits)

lemma candidates_users:
  assumes "candidates directory plateNumber = c # cs"
  shows "filter (\<lambda>u. role u = User) directory \<noteq> []"
proof -
  from assms have "c \<in> set (candidates directory plateNumber)" by simp
  then show ?thesis by (auto simp: candidates_def filter_empty_conv)
qed

text \<open>The string functions and the concrete credential store on the concrete inputs.\<close>

lemma plate_examples:
  "trim ''ABC-1'' = ''ABC-1''" "toUpperCase ''ABC-1'' = ''ABC-1''"
  "trim ''XYZ-9'' = ''XYZ-9''" "toUpperCase ''XYZ-9'' = ''XYZ-9''"
  "trim ''ABC-123'' = ''ABC-123''" "toUpperCase ''ABC-123'' = ''ABC-123''"
  "trim ''ZZZ-0'' = ''ZZZ-0''"
  by (simp_all add: trim_def isWhiteSpace_def toUpperCase_def upper_table_def)

lemma signIn_examples:
  "signInWithPassword shared_credentials ''driver@fleet.example'' ''1111'' = AuthOk"
  "signInWithPassword shared_credentials ''driver@fleet.example'' ''2222'' = AuthError"
  "signInWithPassword shared_credentials ''second@fleet.example'' ''2222'' = AuthOk"
  by (simp_all add: signInWithPassword_def shared_credentials_def)

lemmas login_defs = handleSignIn_def select_role_user_def candidates_def shared_directory_def
  driver_def second_driver_def plate_examples signIn_examples

text \<open>
  C1. The claim that a later candidate is accepted when the first one does not verify
  fails. Two drivers are assigned to \<open>ABC-1\<close>; the entered code is the second driver's.
  Only the first driver is tried, and the attempt ends with \<open>Invalid passcode\<close>.
\<close>

theorem handleSignIn_later_candidate_counterexample:
  "candidates shared_directory ''ABC-1'' = [driver, second_driver] \<and>
   signInWithPassword shared_credentials (email driver) ''2222'' = AuthError \<and>
   signInWithPassword shared_credentials (email second_driver) ''2222'' = AuthOk \<and>
   handleSignIn None shared_directory (signInWithPassword shared_credentials) ''ABC-1'' ''2222'' =
     (InvalidPasscode, [SignInWithPassword ''driver@fleet.example'' ''2222''])"
  by (simp add: login_defs)

text \<open>
  C1, as the code has it. For a non-blank plate and a code of four characters, when the
  candidate set is not empty (in particular when it has two or more members) the
  attempt is decided by the first candidate in directory order alone: one sign-in is made,
  with that candidate's e-mail and the entered code; the attempt succeeds with that
  candidate if the sign-in succeeds, and fails with \<open>Invalid passcode\<close> if it is rejected,
  whatever the credentials of the later candidates are.
\<close>

theorem handleSignIn_first_candidate:
  assumes "trim plateNumber \<noteq> []" and "length enteredCode = 4"
      and "candidates directory plateNumber = c # cs"
  shows "handleSignIn None directory signIn plateNumber enteredCode =
           ((case signIn (email c) enteredCode of
               AuthOk \<Rightarrow> Welcome c (toUpperCase (trim plateNumber))
             | AuthError \<Rightarrow> InvalidPasscode
             | AuthThrows \<Rightarrow> UnexpectedError),
            [SignInWithPassword (email c) enteredCode])"
proof -
  from assms(3) have "find (\<lambda>user. toUpperCase (trim plateNumber) \<in> set (assigned_vehicles user))
          (filter (\<lambda>u. role u = User) directory) = Some c"
    unfolding candidates_def by (rule find_first_candidate)
  with assms(1,2) candidates_users [OF assms(3)] show ?thesis
    by (simp add: handleSignIn_def select_role_user_def split: auth_outcome.split)
qed

theorem handleSignIn_first_candidate_witness:
  "trim ''ABC-1'' \<noteq> [] \<and> length ''1111'' = 4 \<and>
   candidates shared_directory ''ABC-1'' = [driver, second_driver] \<and>
   handleSignIn None shared_directory (signInWithPassword shared_credentials) ''ABC-1'' ''1111'' =
     (Welcome driver ''ABC-1'', [SignInWithPassword ''driver@fleet.example'' ''1111''])"
  using handleSignIn_first_candidate [of "''ABC-1''" "''1111''" shared_directory driver
      "[second_driver]" "signInWithPassword shared_credentials"]
  by (simp add: login_defs)

text \<open>
  C6. The claim that an empty candidate set always ends in \<open>VehicleNotAssigned\<close> fails when
  the directory holds no account of role user at all: the attempt then ends with
  \<open>No user accounts found\<close>. No sign-in is made.
\<close>

theorem handleSignIn_no_accounts_counterexample:
  "candidates [scoped_admin] ''ABC-123'' = [] \<and>
   handleSignIn None [scoped_admin] (signInWithPassword []) ''ABC-123'' ''0000'' =
     (NoUserAccounts, []) \<and>
   NoUserAccounts \<noteq> VehicleNotAssigned ''ABC-123''"
  by (simp add: login_defs scoped_admin_def)

text \<open>
  C6, as the code has it. For a non-blank plate and a code of four characters, when the
  candidate set is empty the attempt fails without any call of the credential store:
  with \<open>VehicleNotAssigned\<close>, naming the normalised plate, when the directory holds at least
  one account of role user, and with \<open>No user accounts found\<close> when it holds none.
\<close>

theorem handleSignIn_no_candidate:
  assumes "trim plateNumber \<noteq> []" and "length enteredCode = 4"
      and "candidates directory plateNumber = []"
  shows "handleSignIn None directory signIn plateNumber enteredCode =
           ((if filter (\<lambda>u. role u = User) directory = [] then NoUserAccounts
             else VehicleNotAssigned (toUpperCase (trim plateNumber))),
            [])"
proof -
  from assms(3) have "find (\<lambda>user. toUpperCase (trim plateNumber) \<in> set (assigned_vehicles user))
          (filter (\<lambda>u. role u = User) directory) = None"
    unfolding candidates_def by (rule find_no_candidate)
  with assms(1,2) show ?thesis
    by (simp add: handleSignIn_def select_role_user_def)
qed

theorem handleSignIn_no_candidate_witness:
  "trim ''XYZ-9'' \<noteq> [] \<and> length ''0000'' = 4 \<and>
   candidates shared_directory ''XYZ-9'' = [] \<and>
   handleSignIn None shared_directory (signInWithPassword shared_credentials) ''XYZ-9'' ''0000'' =
     (VehicleNotAssigned ''XYZ-9'', [])"
  using handleSignIn_no_candidate [of "''XYZ-9''" "''0000''" shared_directory
      "signInWithPassword shared_credentials"]
  by (simp add: login_defs)


section \<open>Properties of auth-with-passcode\<close>

text \<open>
  The loop does not look at the assigned vehicles: replacing every account's assignment
  changes the matched account only in that field.
\<close>

lemma try_users_vehicles:
  "try_users signIn signOutThrows code (map_option (\<lambda>u. u\<lparr>assigned_vehicles := va u\<rparr>) m)
     (map (\<lambda>u. u\<lparr>assigned_vehicles := va u\<rparr>) users) =
   (case try_users signIn signOutThrows code m users of
      (m', calls) \<Rightarrow> (map_option (\<lambda>u. u\<lparr>assigned_vehicles := va u\<rparr>) m', calls))"
proof (induction users arbitrary: m)
  case Nil
  then show ?case by simp
next
  case (Cons user users)
  show ?case
  proof (cases "signIn (email user) code")
    case AuthOk
    with Cons [of "Some user"] show ?thesis
      by (simp split: prod.splits)
  next
    case AuthError
    with Cons [of m] show ?thesis
      by (simp split: prod.splits)
  next
    case AuthThrows
    with Cons [of m] show ?thesis
      by (simp split: prod.splits)
  qed
qed

lemma select_role_user_vehicles:
  "select_role_user fetchError (map (\<lambda>u. u\<lparr>assigned_vehicles := va u\<rparr>) directory) =
   map_sum (\<lambda>msg. msg) (map (\<lambda>u. u\<lparr>assigned_vehicles := va u\<rparr>))
     (select_role_user fetchError directory)"
  by (simp add: select_role_user_def filter_map comp_def split: option.splits)

text \<open>
  C9. With the same method, pass code, directory and credential store, two requests
  whose plate numbers are both non-blank get the same response and make the same calls;
  and the response does not depend on which vehicles the accounts are assigned.
\<close>

theorem auth_with_passcode_plate_irrelevant:
  assumes "trim plate1 \<noteq> []" and "trim plate2 \<noteq> []"
  shows "auth_with_passcode method (Some (passcode, JString plate1)) fetchError directory
           signIn signOutThrows =
         auth_with_passcode method (Some (passcode, JString plate2)) fetchError directory
           signIn signOutThrows \<and>
         auth_with_passcode method (Some (passcode, JString plate1)) fetchError
           (map (\<lambda>u. u\<lparr>assigned_vehicles := va u\<rparr>) directory) signIn signOutThrows =
         auth_with_passcode method (Some (passcode, JString plate1)) fetchError directory
           signIn signOutThrows"
proof
  from assms show "auth_with_passcode method (Some (passcode, JString plate1)) fetchError
      directory signIn signOutThrows =
    auth_with_passcode method (Some (passcode, JString plate2)) fetchError directory
      signIn signOutThrows"
    by (simp add: auth_with_passcode_def split: jsval.splits)
next
  show "auth_with_passcode method (Some (passcode, JString plate1)) fetchError
      (map (\<lambda>u. u\<lparr>assigned_vehicles := va u\<rparr>) directory) signIn signOutThrows =
    auth_with_passcode method (Some (passcode, JString plate1)) fetchError directory
      signIn signOutThrows"
  proof (cases "select_role_user fetchError directory")
    case (Inl msg)
    then show ?thesis
      by (simp add: auth_with_passcode_def select_role_user_vehicles split: jsval.splits)
  next
    case (Inr users)
    obtain m calls where run: "try_users signIn signOutThrows (case passcode of JString code \<Rightarrow> code | JOther \<Rightarrow> [])
        None users = (m, calls)"
      by (cases "try_users signIn signOutThrows (case passcode of JString code \<Rightarrow> code | JOther \<Rightarrow> [])
        None users")
    from try_users_vehicles [of signIn signOutThrows _ va None users] run Inr
    show ?thesis
      by (cases m)
        (simp_all add: auth_with_passcode_def select_role_user_vehicles split: jsval.splits)
  qed
qed

theorem auth_with_passcode_plate_irrelevant_witness:
  "trim ''ABC-1'' \<noteq> [] \<and> trim ''ZZZ-0'' \<noteq> [] \<and>
   auth_with_passcode ''POST'' (Some (JString ''2222'', JString ''ABC-1'')) None shared_directory
     (signInWithPassword shared_credentials) (\<lambda>e. False) =
   (UserFound ''second@fleet.example'' ''Second'',
    [SignInWithPassword ''driver@fleet.example'' ''2222'',
     SignInWithPassword ''second@fleet.example'' ''2222'', SignOut]) \<and>
   auth_with_passcode ''POST'' (Some (JString ''2222'', JString ''ZZZ-0'')) None shared_directory
     (signInWithPassword shared_credentials) (\<lambda>e. False) =
   (UserFound ''second@fleet.example'' ''Second'',
    [SignInWithPassword ''driver@fleet.example'' ''2222'',
     SignInWithPassword ''second@fleet.example'' ''2222'', SignOut])"
  using auth_with_passcode_plate_irrelevant [of "''ABC-1''" "''ZZZ-0''" "''POST''"
      "JString ''2222''" None shared_directory "signInWithPassword shared_credentials"
      "\<lambda>e. False" assigned_vehicles]
  by (simp add: auth_with_passcode_def select_role_user_def shared_directory_def driver_def
      second_driver_def plate_examples signIn_examples four_digits_def isDigit_def)


section \<open>Properties of groupRecordsByPlate\<close>

subsection \<open>The grouping\<close>

lemma grouped_snoc: "grouped (xs @ [r]) = push_record r (grouped xs)"
  by (simp add: grouped_def)

lemma push_record_keys:
  "map fst (push_record r acc) =
     (if plate_number r \<in> fst ` set acc then map fst acc else map fst acc @ [plate_number r])"
  by (induction r acc rule: push_record.induct) auto

lemma push_record_lookup:
  "map_of (push_record r acc) k =
     (if k = plate_number r
      then Some ((case map_of acc k of None \<Rightarrow> [] | Some rs \<Rightarrow> rs) @ [r])
      else map_of acc k)"
  by (induction r acc rule: push_record.induct) auto

lemma grouped_keys:
  "distinct (map fst (grouped xs)) \<and> fst ` set (grouped xs) = plate_number ` set xs"
proof (induction xs rule: rev_induct)
  case Nil
  then show ?case by (simp add: grouped_def)
next
  case (snoc r xs)
  then show ?case
    by (auto simp: grouped_snoc push_record_keys simp flip: set_map)
qed

lemma filter_plate_absent:
  "k \<notin> plate_number ` set xs \<Longrightarrow> filter (\<lambda>r. plate_number r = k) xs = []"
  by (induction xs) auto

lemma grouped_lookup:
  "map_of (grouped xs) k =
     (if k \<in> plate_number ` set xs then Some (filter (\<lambda>r. plate_number r = k) xs) else None)"
proof (induction xs rule: rev_induct)
  case Nil
  then show ?case by (simp add: grouped_def)
next
  case (snoc r xs)
  then show ?case
    by (auto simp: grouped_snoc push_record_lookup filter_plate_absent)
qed

lemma grouped_entry:
  assumes "(k, rs) \<in> set (grouped xs)"
  shows "rs = filter (\<lambda>r. plate_number r = k) xs"
proof -
  from assms grouped_keys [of xs] have "map_of (grouped xs) k = Some rs"
    by simp
  then show ?thesis
    by (simp add: grouped_lookup split: if_splits)
qed

subsection \<open>The summaries in closed form\<close>

lemma summarize_group_plate [simp]:
  "group_plate_number (summarize_group ar (k, rs)) = k"
  by (simp add: summarize_group_def Let_def)

lemma summarize_group_records [simp]:
  "records (summarize_group ar (k, rs)) = sort_key (\<lambda>r. - filling_date r) rs"
  by (simp add: summarize_group_def Let_def)

lemma summarize_group_count [simp]:
  "recordCount (summarize_group ar (k, rs)) = length rs"
  by (simp add: summarize_group_def Let_def)

lemma set_readings:
  "set (List.map_filter odometer_reading (sort_key f rs)) =
     {x. \<exists>r\<in>set rs. odometer_reading r = Some x}"
  by (force simp: map_filter_def image_iff)

lemma summarize_group_latest:
  "latestOdometer (summarize_group ar (k, rs)) =
     (if {x. \<exists>r\<in>set rs. odometer_reading r = Some x} = {} then None
      else Some (Max {x. \<exists>r\<in>set rs. odometer_reading r = Some x}))"
  by (simp add: summarize_group_def Let_def set_readings flip: set_empty2)

lemma summarize_group_first:
  "firstOdometer (summarize_group ar (k, rs)) =
     (if {x. \<exists>r\<in>set rs. odometer_reading r = Some x} = {} then None
      else Some (Min {x. \<exists>r\<in>set rs. odometer_reading r = Some x}))"
  by (simp add: summarize_group_def Let_def set_readings flip: set_empty2)

text \<open>
  Sorting the summaries of the entries gives the same list whatever the order in which
  the entries are enumerated: the plates that occur, in ascending order, each once, and
  for each plate the summary computed from the records of that plate in arrival order.
  (The run-time system enumerates keys that look like array indices first and the other
  keys in insertion order; the model enumerates all keys in insertion order.)
\<close>

lemma sorted_entries_closed:
  assumes "mset E = mset (grouped xs)"
  shows "sort_key group_plate_number (map (summarize_group ar) E) =
     map (\<lambda>k. summarize_group ar (k, filter (\<lambda>r. plate_number r = k) xs))
       (sorted_list_of_set (plate_number ` set xs))"
proof -
  define L where "L = map (summarize_group ar) E"
  define S where "S = sort_key group_plate_number L"
  define C where "C = (\<lambda>k. summarize_group ar (k, filter (\<lambda>r. plate_number r = k) xs))"
  from assms have entries: "set E = set (grouped xs)"
    by (rule mset_eq_setD)
  from assms have "mset (map fst E) = mset (map fst (grouped xs))"
    by (metis mset_map)
  with grouped_keys [of xs] have E_keys: "distinct (map fst E)"
    "set (map fst E) = plate_number ` set xs"
    by (metis mset_eq_imp_distinct_iff, metis mset_eq_setD set_map)
  have keys: "map group_plate_number L = map fst E"
    by (auto simp: L_def)
  have elem: "g = C (group_plate_number g)" if "g \<in> set L" for g
  proof -
    from that entries obtain k rs where
      "(k, rs) \<in> set (grouped xs)" "g = summarize_group ar (k, rs)"
      by (auto simp: L_def)
    with grouped_entry [of k rs xs] show ?thesis by (simp add: C_def)
  qed
  have "mset (map group_plate_number S) = mset (map group_plate_number L)"
    by (simp add: S_def)
  then have "distinct (map group_plate_number S)"
    and "set (map group_plate_number S) = plate_number ` set xs"
    using E_keys keys
    by (metis mset_eq_imp_distinct_iff, metis mset_eq_setD)
  moreover have "sorted (map group_plate_number S)"
    by (simp add: S_def)
  ultimately have key_list:
    "map group_plate_number S = sorted_list_of_set (plate_number ` set xs)"
    by (metis sorted_list_of_set.idem_if_sorted_distinct)
  have "map (\<lambda>g. C (group_plate_number g)) S = S"
    using elem by (intro map_idI) (simp add: S_def)
  then have "S = map C (map group_plate_number S)"
    by (simp add: comp_def)
  then have "S = map C (sorted_list_of_set (plate_number ` set xs))"
    by (simp only: key_list)
  then show ?thesis
    by (simp add: S_def L_def C_def)
qed

lemma groupRecordsByPlate_closed:
  "groupRecordsByPlate ar xs =
     map (\<lambda>k. summarize_group ar (k, filter (\<lambda>r. plate_number r = k) xs))
       (sorted_list_of_set (plate_number ` set xs))"
  unfolding groupRecordsByPlate_def by (rule sorted_entries_closed) simp

lemma entries_order_irrelevant:
  assumes "mset E = mset (grouped xs)"
  shows "sort_key group_plate_number (map (summarize_group ar) E) = groupRecordsByPlate ar xs"
  using sorted_entries_closed [OF assms] by (simp add: groupRecordsByPlate_closed)

subsection \<open>Permuting the input\<close>

lemma sort_key_permutation:
  assumes "mset ys = mset xs" and "inj_on f (set xs)"
  shows "sort_key f ys = sort_key f xs"
proof -
  have "sort_key f xs = sort_key f ys"
    using assms by (intro sort_key_inj_key_eq) simp_all
  then show ?thesis by simp
qed

lemma group_permutation:
  assumes "mset ys = mset xs"
  shows "mset (filter (\<lambda>r. plate_number r = k) ys) = mset (filter (\<lambda>r. plate_number r = k) xs)"
    and "length (filter (\<lambda>r. plate_number r = k) ys) = length (filter (\<lambda>r. plate_number r = k) xs)"
    and "set (filter (\<lambda>r. plate_number r = k) ys) = set (filter (\<lambda>r. plate_number r = k) xs)"
proof -
  show m: "mset (filter (\<lambda>r. plate_number r = k) ys) =
           mset (filter (\<lambda>r. plate_number r = k) xs)"
    by (simp add: assms)
  from m show "length (filter (\<lambda>r. plate_number r = k) ys) =
               length (filter (\<lambda>r. plate_number r = k) xs)"
    by (rule mset_eq_length)
  from m show "set (filter (\<lambda>r. plate_number r = k) ys) =
               set (filter (\<lambda>r. plate_number r = k) xs)"
    by (rule mset_eq_setD)
qed

lemma date_decides_inj:
  assumes "date_decides xs"
  shows "inj_on (\<lambda>r. - filling_date r) (set (filter (\<lambda>r. plate_number r = k) xs))"
  using assms by (auto simp: date_decides_def inj_on_def)

lemma records_permutation:
  assumes "mset ys = mset xs" and "date_decides xs"
  shows "sort_key (\<lambda>r. - filling_date r) (filter (\<lambda>r. plate_number r = k) ys) =
         sort_key (\<lambda>r. - filling_date r) (filter (\<lambda>r. plate_number r = k) xs)"
  using group_permutation(1) [OF assms(1)] date_decides_inj [OF assms(2)]
  by (rule sort_key_permutation)

lemma records_descending:
  "sorted_wrt (\<lambda>a b. filling_date b \<le> filling_date a) (sort_key (\<lambda>r. - filling_date r) rs)"
proof -
  have "sorted (map (\<lambda>r. - filling_date r) (sort_key (\<lambda>r. - filling_date r) rs))"
    by (rule sorted_sort_key)
  then show ?thesis
    by (simp add: sorted_map)
qed

lemma records_ties:
  "filter (\<lambda>r. filling_date r = d) (sort_key (\<lambda>r. - filling_date r) rs) =
   filter (\<lambda>r. filling_date r = d) rs"
  using sort_key_stable [of "\<lambda>r. - filling_date r" "- d" rs] by simp

lemma group_members:
  assumes "g \<in> set (groupRecordsByPlate ar xs)"
  shows "records g =
           sort_key (\<lambda>r. - filling_date r) (filter (\<lambda>r. plate_number r = group_plate_number g) xs)"
  using assms by (auto simp: groupRecordsByPlate_closed)

text \<open>
  C3. The claim that the output is the same for every permutation of the input fails when
  two records of one vehicle share the fill date: the sort is stable, so they stay in
  input order, and the two orders of the input give the two orders of the records.
\<close>

theorem groupRecordsByPlate_order_counterexample:
  "mset [fill_b, fill_a] = mset [fill_a, fill_b] \<and>
   plate_number fill_a = plate_number fill_b \<and> filling_date fill_a = filling_date fill_b \<and>
   map records (groupRecordsByPlate int_arith [fill_a, fill_b]) = [[fill_a, fill_b]] \<and>
   map records (groupRecordsByPlate int_arith [fill_b, fill_a]) = [[fill_b, fill_a]] \<and>
   groupRecordsByPlate int_arith [fill_a, fill_b] \<noteq> groupRecordsByPlate int_arith [fill_b, fill_a]"
  by (simp add: groupRecordsByPlate_def grouped_def summarize_group_def Let_def
      fill_a_def fill_b_def int_arith_def map_filter_simps)

text \<open>
  C3, as the code has it. For every list of records and every permutation of it, the two
  outputs list the same plates in the same order (ascending, each once) and agree, plate
  by plate, on the record count, on the odometer extremes and on the records as a
  multiset. The records of a plate are sorted by descending fill date, and those with the
  same fill date are in input order. Hence the two outputs have the same records in the
  same order whenever the fill date decides the record (two records of one plate with the
  same fill date are equal). Nothing is stated about the total and the average, which are
  floating-point sums taken in input order.
\<close>

theorem groupRecordsByPlate_permutation:
  assumes "mset ys = mset xs"
  shows "map group_plate_number (groupRecordsByPlate ar ys) =
           map group_plate_number (groupRecordsByPlate ar xs) \<and>
         sorted (map group_plate_number (groupRecordsByPlate ar xs)) \<and>
         distinct (map group_plate_number (groupRecordsByPlate ar xs)) \<and>
         map recordCount (groupRecordsByPlate ar ys) =
           map recordCount (groupRecordsByPlate ar xs) \<and>
         map latestOdometer (groupRecordsByPlate ar ys) =
           map latestOdometer (groupRecordsByPlate ar xs) \<and>
         map firstOdometer (groupRecordsByPlate ar ys) =
           map firstOdometer (groupRecordsByPlate ar xs) \<and>
         map (\<lambda>g. mset (records g)) (groupRecordsByPlate ar ys) =
           map (\<lambda>g. mset (records g)) (groupRecordsByPlate ar xs) \<and>
         (\<forall>g\<in>set (groupRecordsByPlate ar xs).
            sorted_wrt (\<lambda>a b. filling_date b \<le> filling_date a) (records g) \<and>
            (\<forall>d. filter (\<lambda>r. filling_date r = d) (records g) =
                 filter (\<lambda>r. plate_number r = group_plate_number g \<and> filling_date r = d) xs)) \<and>
         (date_decides xs \<longrightarrow>
            map records (groupRecordsByPlate ar ys) = map records (groupRecordsByPlate ar xs))"
proof -
  from assms have set: "set ys = set xs"
    by (rule mset_eq_setD)
  have plates: "map group_plate_number (groupRecordsByPlate ar ys) =
      map group_plate_number (groupRecordsByPlate ar xs)"
    by (simp add: groupRecordsByPlate_closed comp_def set)
  have ordered: "sorted (map group_plate_number (groupRecordsByPlate ar xs))"
    "distinct (map group_plate_number (groupRecordsByPlate ar xs))"
    by (simp_all add: groupRecordsByPlate_closed comp_def)
  have counts: "map recordCount (groupRecordsByPlate ar ys) =
      map recordCount (groupRecordsByPlate ar xs)"
    by (simp add: groupRecordsByPlate_closed comp_def set group_permutation(2) [OF assms])
  have latest: "map latestOdometer (groupRecordsByPlate ar ys) =
      map latestOdometer (groupRecordsByPlate ar xs)"
    by (simp add: groupRecordsByPlate_closed comp_def set summarize_group_latest)
  have first: "map firstOdometer (groupRecordsByPlate ar ys) =
      map firstOdometer (groupRecordsByPlate ar xs)"
    by (simp add: groupRecordsByPlate_closed comp_def set summarize_group_first)
  have msets: "map (\<lambda>g. mset (records g)) (groupRecordsByPlate ar ys) =
      map (\<lambda>g. mset (records g)) (groupRecordsByPlate ar xs)"
    by (simp add: groupRecordsByPlate_closed comp_def set assms)
  have inside: "sorted_wrt (\<lambda>a b. filling_date b \<le> filling_date a) (records g) \<and>
      (\<forall>d. filter (\<lambda>r. filling_date r = d) (records g) =
           filter (\<lambda>r. plate_number r = group_plate_number g \<and> filling_date r = d) xs)"
    if "g \<in> set (groupRecordsByPlate ar xs)" for g
    unfolding group_members [OF that]
    by (simp add: records_descending records_ties conj_commute)
  have same: "map records (groupRecordsByPlate ar ys) = map records (groupRecordsByPlate ar xs)"
    if "date_decides xs"
    by (simp add: groupRecordsByPlate_closed comp_def set records_permutation [OF assms that])
  from plates ordered counts latest first msets inside same show ?thesis
    by blast
qed

theorem groupRecordsByPlate_permutation_witness:
  "mset [fill_c, fill_a] = mset [fill_a, fill_c] \<and> date_decides [fill_a, fill_c] \<and>
   map group_plate_number (groupRecordsByPlate int_arith [fill_c, fill_a]) = [''AAA-9'', ''ABC-1''] \<and>
   map group_plate_number (groupRecordsByPlate int_arith [fill_a, fill_c]) = [''AAA-9'', ''ABC-1''] \<and>
   map records (groupRecordsByPlate int_arith [fill_c, fill_a]) = [[fill_c], [fill_a]] \<and>
   map records (groupRecordsByPlate int_arith [fill_a, fill_c]) = [[fill_c], [fill_a]]"
  using groupRecordsByPlate_permutation [of "[fill_c, fill_a]" "[fill_a, fill_c]" int_arith]
  by (simp add: groupRecordsByPlate_def grouped_def summarize_group_def Let_def date_decides_def
      fill_a_def fill_c_def int_arith_def map_filter_simps)


end
